theory Spec2Isabelle
  imports Complex_Main
begin

section \<open>Values and errors of the Python runtime\<close>

text \<open>
  The analyser works on numpy floating-point arrays.  A finite float is modelled as a
  real number (rounding is not modelled); the two special values that the code produces
  on purpose or by an empty reduction are kept apart: minus infinity (the dB value of a
  zero amplitude) and not-a-number (the mean of an empty array).
\<close>

datatype fval = NaN | NegInf | Fin real

datatype error = ValueError | ZeroDivisionError

text \<open>Comparison of a float with a finite number: every comparison with NaN is false.\<close>

fun fgt :: "fval \<Rightarrow> real \<Rightarrow> bool" where
  "fgt (Fin x) y = (x > y)"
| "fgt NegInf y = False"
| "fgt NaN y = False"

fun flt :: "fval \<Rightarrow> real \<Rightarrow> bool" where
  "flt (Fin x) y = (x < y)"
| "flt NegInf y = True"
| "flt NaN y = False"

fun fge :: "fval \<Rightarrow> real \<Rightarrow> bool" where
  "fge (Fin x) y = (x \<ge> y)"
| "fge NegInf y = False"
| "fge NaN y = False"

fun fle :: "fval \<Rightarrow> real \<Rightarrow> bool" where
  "fle (Fin x) y = (x \<le> y)"
| "fle NegInf y = True"
| "fle NaN y = False"

section \<open>Genre selection (app.py)\<close>

text \<open>\<open>str.lower\<close> on the ASCII letters; other characters are left as they are.\<close>

definition lower_char :: "char \<Rightarrow> char" where
  "lower_char c =
     (case map_of (zip ''ABCDEFGHIJKLMNOPQRSTUVWXYZ'' ''abcdefghijklmnopqrstuvwxyz'') c of
        Some d \<Rightarrow> d | None \<Rightarrow> c)"

definition lower :: "string \<Rightarrow> string" where
  "lower s = map lower_char s"

text \<open>\<open>word in text\<close> on strings: \<open>word\<close> occurs as a contiguous substring.\<close>

fun is_prefix :: "string \<Rightarrow> string \<Rightarrow> bool" where
  "is_prefix [] ys = True"
| "is_prefix (x # xs) [] = False"
| "is_prefix (x # xs) (y # ys) = (x = y \<and> is_prefix xs ys)"

fun str_in :: "string \<Rightarrow> string \<Rightarrow> bool" where
  "str_in w [] = (w = [])"
| "str_in w (c # cs) = (is_prefix w (c # cs) \<or> str_in w cs)"

record genre_info =
  genre :: string
  characteristics :: "string list"
  loudness_target :: int
  compression_style :: string
  eq_focus :: string

definition default_genre :: genre_info where
  "default_genre = \<lparr> genre = ''Unknown'', characteristics = [], loudness_target = -14,
     compression_style = ''moderate'', eq_focus = ''balanced'' \<rparr>"

definition hiphop_genre :: genre_info where
  "hiphop_genre = \<lparr> genre = ''Hip-Hop/Rap'',
     characteristics = [''heavy bass'', ''punchy drums'', ''clear vocals'', ''wide stereo''],
     loudness_target = -10, compression_style = ''aggressive'',
     eq_focus = ''bass and presence'' \<rparr>"

definition electronic_genre :: genre_info where
  "electronic_genre = \<lparr> genre = ''Electronic/Dance'',
     characteristics = [''punchy kick'', ''wide stereo'', ''bright highs'', ''tight compression''],
     loudness_target = -8, compression_style = ''tight'', eq_focus = ''kick and highs'' \<rparr>"

definition rock_genre :: genre_info where
  "rock_genre = \<lparr> genre = ''Rock'',
     characteristics = [''guitar presence'', ''punchy drums'', ''vocal clarity'', ''natural dynamics''],
     loudness_target = -12, compression_style = ''moderate'',
     eq_focus = ''guitars and vocals'' \<rparr>"

definition pop_genre :: genre_info where
  "pop_genre = \<lparr> genre = ''Pop'',
     characteristics = [''vocal forward'', ''bright mix'', ''wide stereo'', ''consistent levels''],
     loudness_target = -10, compression_style = ''consistent'',
     eq_focus = ''vocals and brightness'' \<rparr>"

definition acoustic_genre :: genre_info where
  "acoustic_genre = \<lparr> genre = ''Acoustic/Folk'',
     characteristics = [''natural dynamics'', ''warm tones'', ''minimal processing'', ''space''],
     loudness_target = -16, compression_style = ''gentle'',
     eq_focus = ''warmth and clarity'' \<rparr>"

definition fast_genre :: genre_info where
  "fast_genre = \<lparr> genre = ''Fast Electronic/Dance'',
     characteristics = [''high energy'', ''tight compression'', ''bright mix''],
     loudness_target = -8, compression_style = ''tight'', eq_focus = ''kick and highs'' \<rparr>"

definition poprock_genre :: genre_info where
  "poprock_genre = \<lparr> genre = ''Pop/Rock'',
     characteristics = [''moderate energy'', ''balanced mix'', ''clear vocals''],
     loudness_target = -12, compression_style = ''moderate'', eq_focus = ''balanced'' \<rparr>"

definition tempo_hiphop_genre :: genre_info where
  "tempo_hiphop_genre = \<lparr> genre = ''Hip-Hop/Rap'',
     characteristics = [''punchy drums'', ''heavy bass'', ''clear vocals''],
     loudness_target = -10, compression_style = ''aggressive'',
     eq_focus = ''bass and presence'' \<rparr>"

definition slow_genre :: genre_info where
  "slow_genre = \<lparr> genre = ''Slow/Ambient'',
     characteristics = [''atmospheric'', ''gentle dynamics'', ''warm tones''],
     loudness_target = -16, compression_style = ''gentle'', eq_focus = ''warmth and space'' \<rparr>"

definition hiphop_words :: "string list" where
  "hiphop_words = [''hip'', ''rap'', ''trap'', ''drill'', ''jay'', ''kendrick'', ''drake'']"

definition electronic_words :: "string list" where
  "electronic_words = [''edm'', ''electronic'', ''dance'', ''house'', ''techno'', ''trance'']"

definition rock_words :: "string list" where
  "rock_words = [''rock'', ''guitar'', ''band'', ''live'']"

definition pop_words :: "string list" where
  "pop_words = [''pop'', ''mainstream'', ''radio'']"

definition acoustic_words :: "string list" where
  "acoustic_words = [''acoustic'', ''folk'', ''singer'', ''guitar'']"

text \<open>\<open>any(word in vibe_lower for word in words)\<close>.\<close>

definition any_word :: "string list \<Rightarrow> string \<Rightarrow> bool" where
  "any_word ws vibe_lower = list_ex (\<lambda>w. str_in w vibe_lower) ws"

text \<open>
  \<open>analyze_genre_characteristics(tempo, vibe, metrics)\<close>.  The \<open>metrics\<close> argument is not
  read by the function body and is left out.  The tempo override runs only while the
  genre is still \<open>'Unknown'\<close>, as in the source.
\<close>

definition analyze_genre_characteristics :: "real \<Rightarrow> string \<Rightarrow> genre_info" where
  "analyze_genre_characteristics tempo vibe =
     (let genre_info0 = default_genre;
          vibe_lower = (if vibe \<noteq> [] then lower vibe else []);
          genre_info1 =
            (if any_word hiphop_words vibe_lower then hiphop_genre
             else if any_word electronic_words vibe_lower then electronic_genre
             else if any_word rock_words vibe_lower then rock_genre
             else if any_word pop_words vibe_lower then pop_genre
             else if any_word acoustic_words vibe_lower then acoustic_genre
             else genre_info0)
      in if genre genre_info1 = ''Unknown'' then
           (if tempo > 140 then fast_genre
            else if tempo > 120 then poprock_genre
            else if tempo > 90 then tempo_hiphop_genre
            else slow_genre)
         else genre_info1)"

section \<open>Audio feature extraction (audio_analyzer.py)\<close>

text \<open>\<open>np.mean\<close> of a one-dimensional array: NaN for the empty array.\<close>

definition np_mean :: "real list \<Rightarrow> fval" where
  "np_mean xs = (if xs = [] then NaN else Fin (sum_list xs / real (length xs)))"

fun np_sqrt :: "fval \<Rightarrow> fval" where
  "np_sqrt (Fin x) = (if x < 0 then NaN else Fin (sqrt x))"
| "np_sqrt NegInf = NaN"
| "np_sqrt NaN = NaN"

text \<open>\<open>audio**2\<close>, element by element.\<close>

definition square :: "real list \<Rightarrow> real list" where
  "square xs = map (\<lambda>x. x * x) xs"

text \<open>\<open>np.max\<close> raises ValueError on the empty array.\<close>

definition np_max :: "real list \<Rightarrow> error + real" where
  "np_max xs = (if xs = [] then Inl ValueError else Inr (Max (set xs)))"

text \<open>
  \<open>range(0, stop, step)\<close> for a step that is not negative: a zero step raises ValueError,
  a stop that is not positive gives the empty range.
\<close>

definition py_range :: "int \<Rightarrow> nat \<Rightarrow> error + nat list" where
  "py_range stop step =
     (if step = 0 then Inl ValueError
      else Inr (map (\<lambda>k. k * step) [0..<nat ((stop + int step - 1) div int step)]))"

definition calculate_duration :: "real list \<Rightarrow> nat \<Rightarrow> error + real" where
  "calculate_duration audio sample_rate =
     (if sample_rate = 0 then Inl ZeroDivisionError
      else Inr (real (length audio) / real sample_rate))"

text \<open>The first loop of \<open>detect_silence\<close>: the RMS of every 10 ms window, hop by hop.\<close>

definition rms_values :: "real list \<Rightarrow> nat \<Rightarrow> nat \<Rightarrow> error + fval list" where
  "rms_values audio window_size hop_size =
     (case py_range (int (length audio) - int window_size) hop_size of
        Inl e \<Rightarrow> Inl e
      | Inr starts \<Rightarrow>
          Inr (map (\<lambda>i. np_sqrt (np_mean (square (take window_size (drop i audio))))) starts))"

text \<open>
  The second loop of \<open>detect_silence\<close>, over \<open>enumerate(rms_values)\<close>.  The loop state is
  \<open>(in_silence, silence_start, silence_periods)\<close>; \<open>silence_step\<close> is the loop body for
  the window of index \<open>i\<close>, \<open>silence_loop\<close> runs it over the windows from index \<open>i\<close> on.
\<close>

definition silence_step ::
  "real \<Rightarrow> real \<Rightarrow> nat \<Rightarrow> nat \<Rightarrow> nat \<Rightarrow> fval \<Rightarrow> bool \<times> real \<times> (real \<times> real) list
    \<Rightarrow> bool \<times> real \<times> (real \<times> real) list" where
  "silence_step threshold_linear min_silence_duration hop_size sample_rate i rms st =
     (case st of (in_silence, silence_start, silence_periods) \<Rightarrow>
        (let time = real (i * hop_size) / real sample_rate in
         if flt rms threshold_linear \<and> \<not> in_silence then (True, time, silence_periods)
         else if fge rms threshold_linear \<and> in_silence then
           (let silence_end = time in
            (False, silence_start,
             if silence_end - silence_start \<ge> min_silence_duration
             then silence_periods @ [(silence_start, silence_end)] else silence_periods))
         else (in_silence, silence_start, silence_periods)))"

fun silence_loop ::
  "real \<Rightarrow> real \<Rightarrow> nat \<Rightarrow> nat \<Rightarrow> nat \<Rightarrow> fval list \<Rightarrow> bool \<times> real \<times> (real \<times> real) list
    \<Rightarrow> bool \<times> real \<times> (real \<times> real) list" where
  "silence_loop threshold_linear min_silence_duration hop_size sample_rate i [] st = st"
| "silence_loop threshold_linear min_silence_duration hop_size sample_rate i (rms # rest) st =
     silence_loop threshold_linear min_silence_duration hop_size sample_rate (Suc i) rest
       (silence_step threshold_linear min_silence_duration hop_size sample_rate i rms st)"

definition detect_silence ::
  "real list \<Rightarrow> nat \<Rightarrow> real \<Rightarrow> real \<Rightarrow> error + (real \<times> real) list" where
  "detect_silence audio sample_rate threshold_db min_silence_duration =
     (let threshold_linear = 10 powr (threshold_db / 20);
          window_size = nat \<lfloor>0.01 * real sample_rate\<rfloor>;
          hop_size = window_size div 2
      in case rms_values audio window_size hop_size of
           Inl e \<Rightarrow> Inl e
         | Inr rms \<Rightarrow>
            (case silence_loop threshold_linear min_silence_duration hop_size sample_rate 0 rms
                    (False, 0, []) of
               (in_silence, silence_start, silence_periods) \<Rightarrow>
                 if in_silence then
                   (let silence_end = real (length audio) / real sample_rate in
                    if silence_end - silence_start \<ge> min_silence_duration
                    then Inr (silence_periods @ [(silence_start, silence_end)])
                    else Inr silence_periods)
                 else Inr silence_periods))"

text \<open>
  \<open>20 * np.log10(x)\<close> on a positive finite \<open>x\<close>; the callers guard it with \<open>x > 0\<close>.
  Here and in \<open>calculate_rms\<close> and \<open>detect_clipping\<close> every arithmetic step is exact,
  where the program rounds the result of each step to a float.  Properties that hinge
  on the last bits of a result are therefore outside this model.
\<close>

definition to_db :: "real \<Rightarrow> real" where
  "to_db x = 20 * log 10 x"

definition calculate_rms :: "real list \<Rightarrow> fval \<times> fval" where
  "calculate_rms audio =
     (let rms_linear = np_sqrt (np_mean (square audio));
          rms_db = (case rms_linear of
                      Fin r \<Rightarrow> if r > 0 then Fin (to_db r) else NegInf
                    | _ \<Rightarrow> NegInf)
      in (rms_linear, rms_db))"

definition detect_clipping :: "real list \<Rightarrow> nat \<Rightarrow> error + bool \<times> fval \<times> real" where
  "detect_clipping audio sample_rate =
     (case np_max (map abs audio) of
        Inl e \<Rightarrow> Inl e
      | Inr peak_level \<Rightarrow>
         (let peak_level_db = (if peak_level > 0 then Fin (to_db peak_level) else NegInf);
              clipping_threshold = - 0.1;
              is_clipped = fgt peak_level_db clipping_threshold;
              flat_peak_threshold = 0.99;
              flat_peaks = length (filter (\<lambda>x. \<bar>x\<bar> > flat_peak_threshold) audio);
              flat_peak_ratio = real flat_peaks / real (length audio)
          in Inr (if flat_peak_ratio > 0.001 then True else is_clipped,
                  peak_level_db, clipping_threshold)))"

subsection \<open>Tempo and the printed report\<close>

text \<open>
  The lines that \<open>analyze_audio\<close> prints, in print order, with the values they show
  (number formatting is not modelled; the headings, which show no value, are left out).
  The dynamic-range line keeps the two operands of the printed difference.
\<close>

datatype line =
    DurationLine real
  | SilenceTotalLine real real
  | SilenceCountLine nat
  | SilencePeriodsLine "(real \<times> real) list"
  | SilenceMoreLine nat
  | RmsLinearLine fval
  | RmsDbLine fval
  | WarningLine string
  | TempoLine real real
  | TempoUnknownLine
  | PeakLine fval
  | ThresholdLine real
  | ClippedLine bool
  | SampleRateLine nat
  | SampleCountLine nat
  | DynamicRangeLine fval fval
  | FeedbackLine string

text \<open>
  The beat tracker of librosa is an external collaborator: a parameter that either
  raises an exception (\<open>Inl\<close> its message) or returns a tempo and the beat frames.
  \<open>estimate_tempo\<close> returns its pair together with what it printed.
\<close>

type_synonym beat_tracker = "real list \<Rightarrow> nat \<Rightarrow> string + real \<times> nat list"

definition estimate_tempo :: "beat_tracker \<Rightarrow> real list \<Rightarrow> nat \<Rightarrow> (real \<times> real) \<times> line list" where
  "estimate_tempo beat_track audio sample_rate =
     (case beat_track audio sample_rate of
        Inr (tempo, beats) \<Rightarrow> ((tempo, 0.8), [])
      | Inl e \<Rightarrow> ((0, 0), [WarningLine e]))"

text \<open>\<open>(total_silence_time / duration) * 100\<close>: float division raises on a zero duration.\<close>

definition silence_percentage :: "(real \<times> real) list \<Rightarrow> real \<Rightarrow> error + real" where
  "silence_percentage silence_periods duration =
     (let total_silence_time = sum_list (map (\<lambda>(start, end). end - start) silence_periods)
      in if duration = 0 then Inl ZeroDivisionError
         else Inr (total_silence_time / duration * 100))"

text \<open>
  \<open>analyze_audio\<close> from the loaded waveform on.  An exception of a step ends the analysis
  (\<open>Inl\<close>); otherwise the result is the list of printed lines.  The text of
  \<open>generate_mix_feedback\<close>, which only prints, is the parameter \<open>feedback\<close>.
\<close>

definition analyze_audio ::
  "beat_tracker \<Rightarrow> (fval \<Rightarrow> fval \<Rightarrow> bool \<Rightarrow> (real \<times> real) list \<Rightarrow> real \<Rightarrow> real \<Rightarrow> real \<Rightarrow> string list)
    \<Rightarrow> real list \<Rightarrow> nat \<Rightarrow> error + line list" where
  "analyze_audio beat_track feedback audio sample_rate =
     (case calculate_duration audio sample_rate of
        Inl e \<Rightarrow> Inl e
      | Inr duration \<Rightarrow>
     (case detect_silence audio sample_rate (- 40) 0.1 of
        Inl e \<Rightarrow> Inl e
      | Inr silence_periods \<Rightarrow>
     (case silence_percentage silence_periods duration of
        Inl e \<Rightarrow> Inl e
      | Inr percentage \<Rightarrow>
     (case calculate_rms audio of (rms_linear, rms_db) \<Rightarrow>
     (case estimate_tempo beat_track audio sample_rate of ((tempo, confidence), warning) \<Rightarrow>
     (case detect_clipping audio sample_rate of
        Inl e \<Rightarrow> Inl e
      | Inr (is_clipped, peak_level_db, clipping_threshold) \<Rightarrow>
          Inr ([DurationLine duration,
                SilenceTotalLine (sum_list (map (\<lambda>(start, end). end - start) silence_periods))
                  percentage,
                SilenceCountLine (length silence_periods)]
               @ (if silence_periods \<noteq> [] then
                    SilencePeriodsLine (take 5 silence_periods)
                    # (if length silence_periods > 5
                       then [SilenceMoreLine (length silence_periods - 5)] else [])
                  else [])
               @ [RmsLinearLine rms_linear, RmsDbLine rms_db]
               @ warning
               @ [if tempo > 0 then TempoLine tempo confidence else TempoUnknownLine]
               @ [PeakLine peak_level_db, ThresholdLine clipping_threshold,
                  ClippedLine is_clipped,
                  SampleRateLine sample_rate, SampleCountLine (length audio),
                  DynamicRangeLine peak_level_db rms_db]
               @ map FeedbackLine
                   (feedback rms_db peak_level_db is_clipped silence_periods tempo duration
                      percentage))))))))"

subsection \<open>Notions used to state the properties of the silence detector\<close>

text \<open>The start time of the window of index \<open>k\<close>, as the loop computes it.\<close>

definition window_time :: "nat \<Rightarrow> nat \<Rightarrow> nat \<Rightarrow> real" where
  "window_time hop_size sample_rate k = real (k * hop_size) / real sample_rate"

text \<open>
  The windows \<open>i, ..., j - 1\<close> are one run of silence that starts at \<open>i\<close>: all of them are
  below the threshold and the window before \<open>i\<close>, if there is one, is not.
\<close>

definition silent_run :: "real \<Rightarrow> fval list \<Rightarrow> nat \<Rightarrow> nat \<Rightarrow> bool" where
  "silent_run thr ws i j \<longleftrightarrow>
     i < j \<and> j \<le> length ws \<and> (\<forall>k. i \<le> k \<and> k < j \<longrightarrow> flt (ws ! k) thr)
     \<and> (i = 0 \<or> \<not> flt (ws ! (i - 1)) thr)"

text \<open>The invariant of the second loop after the first \<open>n\<close> windows of \<open>ws\<close>.\<close>

definition loop_inv ::
  "real \<Rightarrow> real \<Rightarrow> nat \<Rightarrow> nat \<Rightarrow> fval list \<Rightarrow> nat \<Rightarrow> bool \<times> real \<times> (real \<times> real) list \<Rightarrow> bool" where
  "loop_inv thr md hop sr ws n st =
     (case st of (ins, start, ps) \<Rightarrow>
        n \<le> length ws
        \<and> (\<forall>p\<in>set ps. md \<le> snd p - fst p
              \<and> (\<exists>i j. silent_run thr ws i j \<and> j < n \<and> fge (ws ! j) thr
                     \<and> fst p = window_time hop sr i \<and> snd p = window_time hop sr j))
        \<and> sorted_wrt (\<lambda>p q. snd p < fst q) ps
        \<and> (if ins
            then (\<exists>i. silent_run thr ws i n \<and> start = window_time hop sr i
                       \<and> (\<forall>p\<in>set ps. snd p < start))
            else n = 0 \<or> \<not> flt (ws ! (n - 1)) thr))"

section \<open>Properties of the genre selection\<close>

text \<open>\<open>str_in\<close> is the substring test.\<close>

lemma is_prefix_iff: "is_prefix w s \<longleftrightarrow> (\<exists>q. s = w @ q)"
  by (induction w s rule: is_prefix.induct) auto

lemma str_in_iff: "str_in w s \<longleftrightarrow> (\<exists>p q. s = p @ w @ q)"
proof (induction s)
  case Nil
  then show ?case by simp
next
  case (Cons c cs)
  show ?case
  proof
    assume "str_in w (c # cs)"
    then consider "is_prefix w (c # cs)" | "str_in w cs" by auto
    then show "\<exists>p q. c # cs = p @ w @ q"
    proof cases
      case 1
      then obtain q where "c # cs = w @ q" by (auto simp: is_prefix_iff)
      then have "c # cs = [] @ w @ q" by simp
      then show ?thesis by blast
    next
      case 2
      with Cons obtain p q where "cs = p @ w @ q" by blast
      then have "c # cs = (c # p) @ w @ q" by simp
      then show ?thesis by blast
    qed
  next
    assume "\<exists>p q. c # cs = p @ w @ q"
    then obtain p q where pq: "c # cs = p @ w @ q" by blast
    show "str_in w (c # cs)"
    proof (cases p)
      case Nil
      with pq have "is_prefix w (c # cs)" by (auto simp: is_prefix_iff)
      then show ?thesis by simp
    next
      case (Cons a p')
      with pq have "cs = p' @ w @ q" by simp
      with Cons.IH have "str_in w cs" by blast
      then show ?thesis by simp
    qed
  qed
qed

lemma vibe_lower_eq: "(if vibe \<noteq> [] then lower vibe else []) = lower vibe"
  by (simp add: lower_def)

lemma genre_names:
  "genre hiphop_genre \<noteq> ''Unknown''" "genre electronic_genre \<noteq> ''Unknown''"
  "genre rock_genre \<noteq> ''Unknown''" "genre pop_genre \<noteq> ''Unknown''"
  "genre acoustic_genre \<noteq> ''Unknown''" "genre default_genre = ''Unknown''"
  by (simp_all add: hiphop_genre_def electronic_genre_def rock_genre_def pop_genre_def
      acoustic_genre_def default_genre_def)

lemma any_word_empty: "[] \<notin> set ws \<Longrightarrow> \<not> any_word ws []"
  by (induction ws) (auto simp: any_word_def)

text \<open>
  Claim C8.  Whatever the tempo, a vibe string whose lower-cased form contains
  \<open>trap\<close> selects the Hip-Hop/Rap bucket; the empty vibe string with tempo 150 selects
  the bucket of the tempo range above 140.
\<close>

theorem genre_trap_selects_hiphop:
  "(str_in ''trap'' (lower vibe) \<longrightarrow> analyze_genre_characteristics tempo vibe = hiphop_genre)
   \<and> analyze_genre_characteristics 150 [] = fast_genre"
proof
  show "str_in ''trap'' (lower vibe) \<longrightarrow> analyze_genre_characteristics tempo vibe = hiphop_genre"
  proof
    assume "str_in ''trap'' (lower vibe)"
    then have "any_word hiphop_words (lower vibe)"
      by (simp add: any_word_def hiphop_words_def)
    then show "analyze_genre_characteristics tempo vibe = hiphop_genre"
      by (simp add: analyze_genre_characteristics_def vibe_lower_eq genre_names Let_def)
  qed
next
  show "analyze_genre_characteristics 150 [] = fast_genre"
    by (simp add: analyze_genre_characteristics_def genre_names Let_def any_word_empty
        hiphop_words_def electronic_words_def rock_words_def pop_words_def acoustic_words_def)
qed

theorem genre_trap_selects_hiphop_witness:
  "str_in ''trap'' (lower ''Trap Soul'')
   \<and> analyze_genre_characteristics 70 ''Trap Soul'' = hiphop_genre
   \<and> analyze_genre_characteristics 200 ''Trap Soul'' = hiphop_genre"
  using genre_trap_selects_hiphop [of "''Trap Soul''" 70]
    genre_trap_selects_hiphop [of "''Trap Soul''" 200]
  by (simp add: lower_def lower_char_def)

text \<open>
  Claim C10.  A vibe string whose lower-cased form contains \<open>guitar\<close> and no Hip-Hop/Rap
  or Electronic/Dance keyword gets the Rock bucket.  The \<open>guitar\<close> entry of the
  Acoustic/Folk list is never the reason for an Acoustic/Folk result: whenever that
  bucket is returned, one of \<open>acoustic\<close>, \<open>folk\<close>, \<open>singer\<close> occurs in the string.
\<close>

theorem guitar_selects_rock:
  "(str_in ''guitar'' (lower vibe) \<and> \<not> any_word hiphop_words (lower vibe)
      \<and> \<not> any_word electronic_words (lower vibe)
     \<longrightarrow> analyze_genre_characteristics tempo vibe = rock_genre)
   \<and> (genre (analyze_genre_characteristics tempo vibe) = ''Acoustic/Folk''
     \<longrightarrow> str_in ''acoustic'' (lower vibe) \<or> str_in ''folk'' (lower vibe)
         \<or> str_in ''singer'' (lower vibe))"
proof (intro conjI impI)
  assume a: "str_in ''guitar'' (lower vibe) \<and> \<not> any_word hiphop_words (lower vibe)
      \<and> \<not> any_word electronic_words (lower vibe)"
  then have "any_word rock_words (lower vibe)"
    by (simp add: any_word_def rock_words_def)
  with a show "analyze_genre_characteristics tempo vibe = rock_genre"
    by (simp add: analyze_genre_characteristics_def vibe_lower_eq genre_names Let_def)
next
  assume "genre (analyze_genre_characteristics tempo vibe) = ''Acoustic/Folk''"
  then show "str_in ''acoustic'' (lower vibe) \<or> str_in ''folk'' (lower vibe)
         \<or> str_in ''singer'' (lower vibe)"
    by (auto simp add: analyze_genre_characteristics_def vibe_lower_eq Let_def
        hiphop_genre_def electronic_genre_def rock_genre_def pop_genre_def
        acoustic_genre_def default_genre_def fast_genre_def poprock_genre_def
        tempo_hiphop_genre_def slow_genre_def
        any_word_def rock_words_def acoustic_words_def split: if_splits)
qed

theorem guitar_selects_rock_witness:
  "str_in ''guitar'' (lower ''Acoustic Guitar'')
   \<and> \<not> any_word hiphop_words (lower ''Acoustic Guitar'')
   \<and> \<not> any_word electronic_words (lower ''Acoustic Guitar'')
   \<and> analyze_genre_characteristics 100 ''Acoustic Guitar'' = rock_genre
   \<and> genre (analyze_genre_characteristics 100 ''Folk Song'') = ''Acoustic/Folk''
   \<and> str_in ''folk'' (lower ''Folk Song'')"
proof -
  have h: "str_in ''guitar'' (lower ''Acoustic Guitar'')
     \<and> \<not> any_word hiphop_words (lower ''Acoustic Guitar'')
     \<and> \<not> any_word electronic_words (lower ''Acoustic Guitar'')"
    by (simp add: lower_def lower_char_def any_word_def hiphop_words_def electronic_words_def)
  have l: "lower ''Folk Song'' = ''folk song''"
    by (simp add: lower_def lower_char_def)
  have g: "genre (analyze_genre_characteristics 100 ''Folk Song'') = ''Acoustic/Folk''"
    by (simp add: analyze_genre_characteristics_def l Let_def any_word_def
        hiphop_words_def electronic_words_def rock_words_def pop_words_def acoustic_words_def
        acoustic_genre_def)
  from guitar_selects_rock [of "''Acoustic Guitar''" 100] h
    guitar_selects_rock [of "''Folk Song''" 100] g
  show ?thesis by (simp add: l)
qed

section \<open>Properties of loudness and clipping\<close>

lemma np_max_abs:
  "audio \<noteq> [] \<Longrightarrow> np_max (map abs audio) = Inr (Max (abs ` set audio))"
  by (simp add: np_max_def)

lemma detect_clipping_nonempty:
  assumes "audio \<noteq> []"
  shows "detect_clipping audio sr =
     Inr (fgt (if Max (abs ` set audio) > 0 then Fin (to_db (Max (abs ` set audio))) else NegInf) (- 0.1)
            \<or> real (length (filter (\<lambda>x. \<bar>x\<bar> > 0.99) audio)) / real (length audio) > 0.001,
          if Max (abs ` set audio) > 0 then Fin (to_db (Max (abs ` set audio))) else NegInf,
          - 0.1)"
  using assms by (auto simp add: detect_clipping_def np_max_abs Let_def)

lemma detect_clipping_empty: "detect_clipping [] sr = Inl ValueError"
  by (simp add: detect_clipping_def np_max_def)

lemma count_le:
  "length (filter (\<lambda>x. \<bar>x\<bar> = 1) (audio :: real list))
    \<le> length (filter (\<lambda>x. \<bar>x\<bar> > 0.99) audio)"
  by (induction audio) auto

text \<open>
  Claim C1.  On a non-empty waveform \<open>detect_clipping\<close> returns the peak level in dB
  (minus infinity for a zero peak), and \<open>is_clipped\<close> holds exactly when that level is
  above -0.1 dB or more than 0.001 of the samples have an absolute value above 0.99.
  In particular a waveform with more than 0.1 percent of its samples at amplitude 1.0
  is reported as clipped.
\<close>

theorem clipping_policy:
  "(audio \<noteq> [] \<longrightarrow>
      (\<exists>is_clipped peak_db. detect_clipping audio sr = Inr (is_clipped, peak_db, - 0.1)
         \<and> peak_db = (if Max (abs ` set audio) > 0
                       then Fin (20 * log 10 (Max (abs ` set audio))) else NegInf)
         \<and> (is_clipped \<longleftrightarrow>
              fgt peak_db (- 0.1)
              \<or> real (length (filter (\<lambda>x. \<bar>x\<bar> > 0.99) audio)) / real (length audio) > 0.001)))
   \<and> (real (length (filter (\<lambda>x. \<bar>x\<bar> = 1) audio)) / real (length audio) > 0.001 \<longrightarrow>
      (\<exists>peak_db. detect_clipping audio sr = Inr (True, peak_db, - 0.1)))"
proof (intro conjI impI)
  assume "audio \<noteq> []"
  then show "\<exists>is_clipped peak_db. detect_clipping audio sr = Inr (is_clipped, peak_db, - 0.1)
         \<and> peak_db = (if Max (abs ` set audio) > 0
                       then Fin (20 * log 10 (Max (abs ` set audio))) else NegInf)
         \<and> (is_clipped \<longleftrightarrow>
              fgt peak_db (- 0.1)
              \<or> real (length (filter (\<lambda>x. \<bar>x\<bar> > 0.99) audio)) / real (length audio) > 0.001)"
    by (simp add: detect_clipping_nonempty to_db_def)
next
  assume a: "real (length (filter (\<lambda>x. \<bar>x\<bar> = 1) audio)) / real (length audio) > 0.001"
  then have ne: "audio \<noteq> []" by auto
  have "real (length (filter (\<lambda>x. \<bar>x\<bar> = 1) audio)) / real (length audio)
      \<le> real (length (filter (\<lambda>x. \<bar>x\<bar> > 0.99) audio)) / real (length audio)"
    using count_le [of audio] by (simp add: divide_right_mono)
  with a have "real (length (filter (\<lambda>x. \<bar>x\<bar> > 0.99) audio)) / real (length audio) > 0.001"
    by linarith
  then show "\<exists>peak_db. detect_clipping audio sr = Inr (True, peak_db, - 0.1)"
    using ne by (simp add: detect_clipping_nonempty)
qed

theorem clipping_policy_witness:
  "[1, 0] \<noteq> ([] :: real list)
   \<and> real (length (filter (\<lambda>x. \<bar>x\<bar> = 1) [1, 0 :: real])) / real (length [1, 0 :: real]) > 0.001
   \<and> detect_clipping [1, 0] 200 = Inr (True, Fin 0, - 0.1)"
  using clipping_policy [of "[1, 0]" 200] by auto

text \<open>
  In exact arithmetic the flat-peak test never changes the verdict: a sample above 0.99
  already puts the peak above \<open>20 * log10(0.99)\<close>, about -0.087 dB, which is above the
  threshold of -0.1 dB.
\<close>

lemma near_full_scale_db: "- 0.1 < to_db x" if "0.99 < x" for x :: real
proof -
  have "(9 / 10 :: real) < (99 / 100) ^ 10" by (simp add: power_divide)
  then have "(9 / 10 :: real) ^ 20 < ((99 / 100) ^ 10) ^ 20"
    by (intro power_strict_mono) simp_all
  moreover have "(1 / 10 :: real) < (9 / 10) ^ 20" by (simp add: power_divide)
  ultimately have p: "(99 / 100 :: real) ^ 200 > 1 / 10"
    by (simp add: power_mult [symmetric])
  have "(10::real) powr (- (1 / 200)) < 99 / 100"
  proof (rule power_less_imp_less_base)
    have "((10::real) powr (- (1 / 200))) ^ 200 = 10 powr (- (1 / 200) * 200)"
      by (simp add: powr_power)
    also have "\<dots> = 1 / 10" by (simp add: powr_minus_divide)
    finally show "((10::real) powr (- (1 / 200))) ^ 200 < (99 / 100) ^ 200" using p by simp
  qed simp
  also have "\<dots> < x" using that by simp
  finally have "10 powr (- (1 / 200)) < x" .
  moreover have "0 < x" using that by simp
  ultimately have "- (1 / 200) < log 10 x"
    by (simp add: less_log_iff)
  then show ?thesis by (simp add: to_db_def)
qed


lemma flat_peaks_above_threshold:
  assumes "detect_clipping audio sr = Inr (is_clipped, peak_level_db, thr)"
  shows "is_clipped \<longleftrightarrow> fgt peak_level_db (- 0.1)"
proof -
  have ne: "audio \<noteq> []" using assms by (auto simp: detect_clipping_empty)
  let ?M = "Max (abs ` set audio)"
  let ?p = "if ?M > 0 then Fin (to_db ?M) else NegInf"
  let ?ratio = "real (length (filter (\<lambda>x. \<bar>x\<bar> > 0.99) audio)) / real (length audio)"
  from assms have c: "is_clipped \<longleftrightarrow> fgt ?p (- 0.1) \<or> ?ratio > 0.001"
    and p: "peak_level_db = ?p"
    unfolding detect_clipping_nonempty [OF ne] by auto
  have "fgt ?p (- 0.1)" if "?ratio > 0.001"
  proof -
    from that have "filter (\<lambda>x. \<bar>x\<bar> > 0.99) audio \<noteq> []" by auto
    then obtain x where x: "x \<in> set audio" "\<bar>x\<bar> > 0.99"
      by (auto simp: filter_empty_conv)
    then have "\<bar>x\<bar> \<le> ?M" by simp
    with x(2) have M: "0.99 < ?M" by linarith
    then have "- 0.1 < to_db ?M" by (rule near_full_scale_db)
    moreover have "0 < ?M"
      by (rule less_trans [OF _ M]) simp
    ultimately show ?thesis by simp
  qed
  with c p show ?thesis by blast
qed

lemma sum_squares_le:
  "\<forall>x\<in>set xs. \<bar>x\<bar> \<le> M \<Longrightarrow> sum_list (square xs) \<le> real (length xs) * (M * M)"
proof (induction xs)
  case Nil
  then show ?case by (simp add: square_def)
next
  case (Cons x xs)
  then have "\<bar>x\<bar> \<le> M" by simp
  then have "\<bar>x\<bar> * \<bar>x\<bar> \<le> M * M"
    by (intro mult_mono) auto
  then have "x * x \<le> M * M" by simp
  with Cons show ?case by (simp add: square_def algebra_simps)
qed

lemma sum_squares_nonneg: "0 \<le> sum_list (square xs)"
  by (induction xs) (simp_all add: square_def)

lemma rms_le_bound:
  assumes "xs \<noteq> []" and "\<forall>x\<in>set xs. \<bar>x\<bar> \<le> M"
  shows "sqrt (sum_list (square xs) / real (length xs)) \<le> M"
proof -
  have M0: "0 \<le> M" using assms by (cases xs) (auto intro: order_trans [OF abs_ge_zero])
  have "sum_list (square xs) / real (length xs) \<le> M * M"
    using sum_squares_le [OF assms(2)] assms(1)
    by (simp add: divide_le_eq mult.commute)
  then have "sqrt (sum_list (square xs) / real (length xs)) \<le> sqrt (M * M)"
    by (rule real_sqrt_le_mono)
  moreover have "sqrt (M * M) = M" using M0 by simp
  ultimately show ?thesis by simp
qed

lemma calculate_rms_nonempty:
  "audio \<noteq> [] \<Longrightarrow> calculate_rms audio =
     (Fin (sqrt (sum_list (square audio) / real (length audio))),
      if sqrt (sum_list (square audio) / real (length audio)) > 0
      then Fin (to_db (sqrt (sum_list (square audio) / real (length audio)))) else NegInf)"
proof -
  assume ne: "audio \<noteq> []"
  have "0 \<le> sum_list (square audio) / real (length audio)"
    using sum_squares_nonneg [of audio] by simp
  then have "\<not> sum_list (square audio) / real (length audio) < 0"
    by (simp add: not_less)
  then show ?thesis using ne
    by (simp add: calculate_rms_def np_mean_def Let_def square_def)
qed

lemma calculate_rms_empty: "calculate_rms [] = (NaN, NegInf)"
  by (simp add: calculate_rms_def np_mean_def Let_def square_def)

lemma Max_abs_bound: "audio \<noteq> [] \<Longrightarrow> \<forall>x\<in>set audio. \<bar>x\<bar> \<le> Max (abs ` set audio)"
  by simp

text \<open>
  Over the reals the RMS level never exceeds the peak level.  This is a fact of exact
  arithmetic only.  The program rounds every step (square, sum, division, square root,
  logarithm) in IEEE floating point, and the rounded values need not keep the order:
  for three samples of 0.3 in double precision the rounded RMS is
  0.30000000000000004, above the peak 0.3, and the RMS level -10.45757490560675 dB is
  above the peak level -10.457574905606752 dB.
\<close>

lemma exact_rms_db_le_peak_db:
  assumes "calculate_rms audio = (rms_linear, Fin rms_db)"
    and "detect_clipping audio sr = Inr (is_clipped, Fin peak_level_db, thr)"
  shows "rms_db \<le> peak_level_db"
proof -
  have ne: "audio \<noteq> []"
    using assms(2) by (auto simp: detect_clipping_empty)
  let ?r = "sqrt (sum_list (square audio) / real (length audio))"
  let ?M = "Max (abs ` set audio)"
  from assms(1) have "(if ?r > 0 then Fin (to_db ?r) else NegInf) = Fin rms_db"
    unfolding calculate_rms_nonempty [OF ne] by simp
  then have r: "?r > 0" "rms_db = to_db ?r"
    by (cases "?r > 0"; simp)+
  from assms(2) have "(if ?M > 0 then Fin (to_db ?M) else NegInf) = Fin peak_level_db"
    unfolding detect_clipping_nonempty [OF ne] by simp
  then have p: "?M > 0" "peak_level_db = to_db ?M"
    by (cases "?M > 0"; simp)+
  have "?r \<le> ?M" using rms_le_bound [OF ne Max_abs_bound [OF ne]] .
  with r(1) p(1) have "log 10 ?r \<le> log 10 ?M" by simp
  then show ?thesis by (simp add: r p to_db_def)
qed

text \<open>
  Claim C6.  For a waveform whose samples lie in the nominal range [-1, 1], the RMS
  level and the peak level in dB are at most 0 (minus infinity included), and a
  non-empty all-zero buffer maps both to minus infinity.
\<close>

theorem db_levels_nonpositive:
  assumes "\<forall>x\<in>set audio. \<bar>x\<bar> \<le> 1"
  shows "fle (snd (calculate_rms audio)) 0
    \<and> (\<forall>is_clipped peak_level_db thr.
          detect_clipping audio sr = Inr (is_clipped, peak_level_db, thr) \<longrightarrow> fle peak_level_db 0)
    \<and> (audio \<noteq> [] \<and> (\<forall>x\<in>set audio. x = 0) \<longrightarrow>
          snd (calculate_rms audio) = NegInf
          \<and> detect_clipping audio sr = Inr (False, NegInf, - 0.1))"
proof (intro conjI allI impI)
  show "fle (snd (calculate_rms audio)) 0"
  proof (cases "audio = []")
    case True
    then show ?thesis by (simp add: calculate_rms_empty)
  next
    case False
    let ?r = "sqrt (sum_list (square audio) / real (length audio))"
    have "?r \<le> 1" using rms_le_bound [OF False assms] .
    then have "?r > 0 \<Longrightarrow> log 10 ?r \<le> 0" by simp
    then show ?thesis by (simp add: calculate_rms_nonempty [OF False] to_db_def)
  qed
next
  fix is_clipped peak_level_db thr
  assume d: "detect_clipping audio sr = Inr (is_clipped, peak_level_db, thr)"
  then have ne: "audio \<noteq> []" by (auto simp: detect_clipping_empty)
  let ?M = "Max (abs ` set audio)"
  have "?M \<le> 1" using assms ne by simp
  then have "?M > 0 \<Longrightarrow> log 10 ?M \<le> 0" by simp
  moreover from d have "peak_level_db = (if ?M > 0 then Fin (to_db ?M) else NegInf)"
    unfolding detect_clipping_nonempty [OF ne] by simp
  ultimately show "fle peak_level_db 0"
    by (cases "?M > 0") (simp_all add: to_db_def)
next
  assume z: "audio \<noteq> [] \<and> (\<forall>x\<in>set audio. x = 0)"
  then have ne: "audio \<noteq> []" by simp
  have "\<forall>x\<in>set xs. x = 0 \<Longrightarrow> sum_list (square xs) = 0" for xs
    by (induction xs) (simp_all add: square_def)
  with z have sq: "sum_list (square audio) = 0" by simp
  from z have "abs ` set audio = {0}" by (cases audio) auto
  then have M: "Max (abs ` set audio) = 0" by simp
  from z have f: "filter (\<lambda>x. \<bar>x\<bar> > 0.99) audio = []"
    by (auto simp: filter_empty_conv)
  show "snd (calculate_rms audio) = NegInf"
    by (simp add: calculate_rms_nonempty [OF ne] sq)
  show "detect_clipping audio sr = Inr (False, NegInf, - 0.1)"
    unfolding detect_clipping_nonempty [OF ne] M f by simp
qed

text \<open>The range of the samples is needed: a sample of 2.0 has a peak level above 0 dB.\<close>

lemma peak_db_positive_outside_range:
  "detect_clipping [2] sr = Inr (True, Fin (to_db 2), - 0.1) \<and> to_db 2 > 0"
  by (simp add: detect_clipping_def np_max_def Let_def to_db_def)

theorem db_levels_nonpositive_witness:
  "fle (snd (calculate_rms [1])) 0
   \<and> detect_clipping [1] 200 = Inr (True, Fin 0, - 0.1) \<and> fle (Fin 0) 0
   \<and> snd (calculate_rms [0, 0]) = NegInf
   \<and> detect_clipping [0, 0] 200 = Inr (False, NegInf, - 0.1)"
proof -
  have h: "\<forall>x\<in>set [1 :: real]. \<bar>x\<bar> \<le> 1" by simp
  have h0: "\<forall>x\<in>set [0, 0 :: real]. \<bar>x\<bar> \<le> 1" by simp
  have d: "detect_clipping [1] 200 = Inr (True, Fin 0, - 0.1)"
    by (simp add: detect_clipping_def np_max_def Let_def to_db_def)
  from db_levels_nonpositive [OF h, of 200] db_levels_nonpositive [OF h0, of 200] d
  show ?thesis by simp
qed

section \<open>Properties of the silence detector\<close>

lemma window_size_eq: "nat \<lfloor>0.01 * real sr\<rfloor> = sr div 100"
proof -
  have "0.01 * real sr = real sr / real 100" by simp
  then have "\<lfloor>0.01 * real sr\<rfloor> = \<lfloor>real sr / real 100\<rfloor>" by simp
  also have "\<dots> = int (sr div 100)" by (rule floor_divide_of_nat_eq)
  finally show ?thesis by simp
qed

lemma window_size_eq': "nat \<lfloor>real sr / 100\<rfloor> = sr div 100"
  using window_size_eq [of sr] by simp

lemma window_time_mono:
  assumes "0 < hop" "0 < sr" "i < j"
  shows "window_time hop sr i < window_time hop sr j"
proof -
  from assms have "i * hop < j * hop" by simp
  then have "real (i * hop) < real (j * hop)" by (simp only: of_nat_less_iff)
  then show ?thesis using assms(2) by (simp add: window_time_def divide_strict_right_mono)
qed

lemma window_time_nonneg: "0 \<le> window_time hop sr i"
  by (simp add: window_time_def)

lemma fin_not_flt: "w = Fin x \<Longrightarrow> \<not> flt w thr \<longleftrightarrow> fge w thr"
  by auto

lemma silent_run_extend:
  "silent_run thr ws i n \<Longrightarrow> n < length ws \<Longrightarrow> flt (ws ! n) thr \<Longrightarrow> silent_run thr ws i (Suc n)"
  by (auto simp: silent_run_def less_Suc_eq)

lemma silent_run_start:
  "n < length ws \<Longrightarrow> flt (ws ! n) thr \<Longrightarrow> n = 0 \<or> \<not> flt (ws ! (n - 1)) thr
    \<Longrightarrow> silent_run thr ws n (Suc n)"
  by (auto simp: silent_run_def less_Suc_eq)

lemma loop_inv_step:
  assumes hop: "0 < hop" and sr: "0 < sr"
    and inv: "loop_inv thr md hop sr ws n st"
    and n: "n < length ws"
    and fin: "ws ! n = Fin x"
  shows "loop_inv thr md hop sr ws (Suc n) (silence_step thr md hop sr n (ws ! n) st)"
proof -
  obtain ins start ps where st: "st = (ins, start, ps)" by (cases st)
  from inv st have per: "\<forall>p\<in>set ps. md \<le> snd p - fst p
        \<and> (\<exists>i j. silent_run thr ws i j \<and> j < n \<and> fge (ws ! j) thr
               \<and> fst p = window_time hop sr i \<and> snd p = window_time hop sr j)"
    and srt: "sorted_wrt (\<lambda>p q. snd p < fst q) ps"
    by (simp_all add: loop_inv_def)
  have per': "\<forall>p\<in>set ps. md \<le> snd p - fst p
        \<and> (\<exists>i j. silent_run thr ws i j \<and> j < Suc n \<and> fge (ws ! j) thr
               \<and> fst p = window_time hop sr i \<and> snd p = window_time hop sr j)"
    using per less_Suc_eq by blast
  have before: "\<forall>p\<in>set ps. snd p < window_time hop sr n"
  proof
    fix p assume "p \<in> set ps"
    with per obtain j where "j < n" "snd p = window_time hop sr j" by blast
    then show "snd p < window_time hop sr n"
      using window_time_mono [OF hop sr] by simp
  qed
  have time: "real (n * hop) / real sr = window_time hop sr n"
    by (simp add: window_time_def)
  show ?thesis
  proof (cases "flt (ws ! n) thr")
    case silent: True
    then have nfge: "\<not> fge (ws ! n) thr" using fin by auto
    show ?thesis
    proof (cases ins)
      case True
      with inv st obtain i where i: "silent_run thr ws i n" "start = window_time hop sr i"
        "\<forall>p\<in>set ps. snd p < start"
        by (auto simp: loop_inv_def)
      have "silence_step thr md hop sr n (ws ! n) st = (True, start, ps)"
        using True silent nfge st by (simp add: silence_step_def)
      moreover have "silent_run thr ws i (Suc n)"
        using silent_run_extend [OF i(1) n silent] .
      ultimately show ?thesis
        using n per' srt i(2,3) by (auto simp: loop_inv_def)
    next
      case False
      with inv st have "n = 0 \<or> \<not> flt (ws ! (n - 1)) thr"
        by (simp add: loop_inv_def)
      then have "silent_run thr ws n (Suc n)"
        using silent_run_start [OF n silent] by simp
      moreover have "silence_step thr md hop sr n (ws ! n) st = (True, window_time hop sr n, ps)"
        using False silent st by (simp add: silence_step_def window_time_def)
      ultimately show ?thesis
        using n per' srt before by (auto simp: loop_inv_def)
    qed
  next
    case sound: False
    then have fge: "fge (ws ! n) thr" using fin by auto
    show ?thesis
    proof (cases ins)
      case True
      with inv st obtain i where i: "silent_run thr ws i n" "start = window_time hop sr i"
        "\<forall>p\<in>set ps. snd p < start"
        by (auto simp: loop_inv_def)
      let ?ps = "if window_time hop sr n - start \<ge> md
                 then ps @ [(start, window_time hop sr n)] else ps"
      have step: "silence_step thr md hop sr n (ws ! n) st = (False, start, ?ps)"
        using True sound fge st by (simp add: silence_step_def window_time_def Let_def)
      have new: "md \<le> window_time hop sr n - start \<Longrightarrow>
          (\<exists>i j. silent_run thr ws i j \<and> j < Suc n \<and> fge (ws ! j) thr
               \<and> start = window_time hop sr i \<and> window_time hop sr n = window_time hop sr j)"
        using i(1,2) fge by blast
      have p1: "\<forall>p\<in>set ?ps. md \<le> snd p - fst p
        \<and> (\<exists>i j. silent_run thr ws i j \<and> j < Suc n \<and> fge (ws ! j) thr
               \<and> fst p = window_time hop sr i \<and> snd p = window_time hop sr j)"
        using per' new by auto
      have p2: "sorted_wrt (\<lambda>p q. snd p < fst q) ?ps"
        using srt i(3) by (simp add: sorted_wrt_append)
      show ?thesis
        unfolding step using n p1 p2 sound by (simp add: loop_inv_def)
    next
      case False
      have "silence_step thr md hop sr n (ws ! n) st = (False, start, ps)"
        using False sound st by (simp add: silence_step_def)
      then show ?thesis
        using n per' srt sound by (simp add: loop_inv_def)
    qed
  qed
qed

lemma loop_inv_loop:
  assumes hop: "0 < hop" and sr: "0 < sr"
    and fin: "\<forall>w\<in>set ws. \<exists>x. w = Fin x"
  shows "ws = pre @ rest \<Longrightarrow> loop_inv thr md hop sr ws (length pre) st
    \<Longrightarrow> loop_inv thr md hop sr ws (length ws) (silence_loop thr md hop sr (length pre) rest st)"
proof (induction rest arbitrary: pre st)
  case Nil
  then show ?case by simp
next
  case (Cons w rest)
  have n: "length pre < length ws" using Cons.prems(1) by simp
  have w: "ws ! length pre = w" using Cons.prems(1) by simp
  from fin n obtain x where x: "ws ! length pre = Fin x"
    using nth_mem by blast
  have inv': "loop_inv thr md hop sr ws (Suc (length pre))
      (silence_step thr md hop sr (length pre) w st)"
    using loop_inv_step [OF hop sr Cons.prems(2) n x] w by simp
  have "ws = (pre @ [w]) @ rest" using Cons.prems(1) by simp
  from Cons.IH [OF this] inv'
  show ?case by simp
qed

lemma loop_inv_init: "loop_inv thr md hop sr ws 0 (False, 0, [])"
  by (simp add: loop_inv_def)


lemma py_range_zero: "py_range stop 0 = Inl ValueError"
  by (simp add: py_range_def)

lemma py_range_pos:
  "0 < step \<Longrightarrow> py_range stop step
     = Inr (map (\<lambda>k. k * step) [0..<nat ((stop + int step - 1) div int step)])"
  by (simp add: py_range_def)

lemma range_index_bound:
  assumes "0 < step" and "k < nat ((stop + int step - 1) div int step)"
  shows "int (k * step) < stop"
proof -
  from assms(2) have "int k + 1 \<le> (stop + int step - 1) div int step" by linarith
  then have "(int k + 1) * int step \<le> (stop + int step - 1) div int step * int step"
    using assms(1) by (simp add: mult_right_mono)
  also have "\<dots> = (stop + int step - 1) - (stop + int step - 1) mod int step"
    by (simp add: minus_mod_eq_div_mult)
  also have "\<dots> \<le> stop + int step - 1"
  proof -
    have "0 \<le> (stop + int step - 1) mod int step"
      using assms(1) by (intro pos_mod_sign) simp
    then show ?thesis by linarith
  qed
  finally show ?thesis by (simp add: algebra_simps)
qed

lemma np_rms_fin:
  assumes "w \<noteq> []"
  shows "np_sqrt (np_mean (square w)) = Fin (sqrt (sum_list (square w) / real (length w)))"
proof -
  have "0 \<le> sum_list (square w) / real (length w)"
    using sum_squares_nonneg [of w] by simp
  then have "\<not> sum_list (square w) / real (length w) < 0" by (simp add: not_less)
  moreover have "square w \<noteq> []" "length (square w) = length w"
    using assms by (simp_all add: square_def)
  ultimately show ?thesis by (simp add: np_mean_def)
qed

lemma rms_values_zero_hop: "rms_values audio ws 0 = Inl ValueError"
  by (simp add: rms_values_def py_range_zero)

lemma rms_values_pos:
  assumes "0 < hop" and "rms_values audio ws hop = Inr rms"
  shows "length rms = nat ((int (length audio) - int ws + int hop - 1) div int hop)"
    and "\<forall>k<length rms. rms ! k = np_sqrt (np_mean (square (take ws (drop (k * hop) audio))))"
    and "\<forall>k<length rms. k * hop + ws < length audio"
proof -
  let ?n = "nat ((int (length audio) - int ws + int hop - 1) div int hop)"
  from assms have rms: "rms = map (\<lambda>i. np_sqrt (np_mean (square (take ws (drop i audio)))))
      (map (\<lambda>k. k * hop) [0..<?n])"
    by (simp add: rms_values_def py_range_pos)
  then show len: "length rms = ?n" by simp
  show "\<forall>k<length rms. rms ! k = np_sqrt (np_mean (square (take ws (drop (k * hop) audio))))"
    unfolding len by (simp add: rms)
  show "\<forall>k<length rms. k * hop + ws < length audio"
  proof (intro allI impI)
    fix k assume "k < length rms"
    then have "k < ?n" using len by simp
    from range_index_bound [OF assms(1) this] show "k * hop + ws < length audio"
      by linarith
  qed
qed

lemma rms_values_fin:
  assumes "0 < hop" and "0 < ws" and "rms_values audio ws hop = Inr rms"
  shows "\<forall>w\<in>set rms. \<exists>x. w = Fin x"
proof
  fix w assume "w \<in> set rms"
  then obtain k where k: "k < length rms" "w = rms ! k" by (auto simp: in_set_conv_nth)
  from rms_values_pos(2,3) [OF assms(1,3)] k
  have w: "w = np_sqrt (np_mean (square (take ws (drop (k * hop) audio))))"
    and b: "k * hop + ws < length audio" by simp_all
  from b assms(2) have "take ws (drop (k * hop) audio) \<noteq> []" by simp
  from np_rms_fin [OF this] w show "\<exists>x. w = Fin x" by simp
qed

text \<open>What a successful run of \<open>detect_silence\<close> is made of.\<close>

lemma detect_silence_Inr:
  assumes "detect_silence audio sr threshold_db md = Inr periods"
  obtains rms ins start ps where
    "0 < sr div 100 div 2"
    "rms_values audio (sr div 100) (sr div 100 div 2) = Inr rms"
    "silence_loop (10 powr (threshold_db / 20)) md (sr div 100 div 2) sr 0 rms (False, 0, [])
       = (ins, start, ps)"
    "periods = (if ins \<and> md \<le> real (length audio) / real sr - start
                then ps @ [(start, real (length audio) / real sr)] else ps)"
proof -
  let ?hop = "sr div 100 div 2"
  have hop: "0 < ?hop"
  proof (rule ccontr)
    assume "\<not> 0 < ?hop"
    then have "?hop = 0" by simp
    then have "detect_silence audio sr threshold_db md = Inl ValueError"
      by (simp add: detect_silence_def window_size_eq' rms_values_zero_hop Let_def)
    with assms show False by simp
  qed
  from assms obtain rms where rms: "rms_values audio (sr div 100) ?hop = Inr rms"
    by (auto simp: detect_silence_def window_size_eq' Let_def split: sum.splits)
  obtain ins start ps where
    l: "silence_loop (10 powr (threshold_db / 20)) md ?hop sr 0 rms (False, 0, []) = (ins, start, ps)"
    by (metis prod_cases3)
  from assms rms l
  have "periods = (if ins \<and> md \<le> real (length audio) / real sr - start
                then ps @ [(start, real (length audio) / real sr)] else ps)"
    by (auto simp: detect_silence_def window_size_eq' Let_def split: if_splits)
  with hop rms l show ?thesis by (rule that)
qed

lemma detect_silence_inv:
  assumes "detect_silence audio sr threshold_db md = Inr periods"
  obtains rms ins start ps where
    "0 < sr div 100 div 2" "0 < sr"
    "rms_values audio (sr div 100) (sr div 100 div 2) = Inr rms"
    "loop_inv (10 powr (threshold_db / 20)) md (sr div 100 div 2) sr rms (length rms)
       (ins, start, ps)"
    "periods = (if ins \<and> md \<le> real (length audio) / real sr - start
                then ps @ [(start, real (length audio) / real sr)] else ps)"
proof -
  from assms obtain rms ins start ps where
    hop: "0 < sr div 100 div 2"
    and rms: "rms_values audio (sr div 100) (sr div 100 div 2) = Inr rms"
    and l: "silence_loop (10 powr (threshold_db / 20)) md (sr div 100 div 2) sr 0 rms (False, 0, [])
       = (ins, start, ps)"
    and p: "periods = (if ins \<and> md \<le> real (length audio) / real sr - start
                then ps @ [(start, real (length audio) / real sr)] else ps)"
    by (rule detect_silence_Inr)
  from hop have sr: "0 < sr" by (cases "sr = 0") simp_all
  from hop have ws: "0 < sr div 100" by (cases "sr div 100 = 0") simp_all
  have fin: "\<forall>w\<in>set rms. \<exists>x. w = Fin x"
    using rms_values_fin [OF hop ws rms] .
  have "loop_inv (10 powr (threshold_db / 20)) md (sr div 100 div 2) sr rms (length rms)
      (silence_loop (10 powr (threshold_db / 20)) md (sr div 100 div 2) sr (length ([]::fval list)) rms (False, 0, []))"
    by (rule loop_inv_loop [OF hop sr fin]) (simp_all add: loop_inv_init)
  then have inv: "loop_inv (10 powr (threshold_db / 20)) md (sr div 100 div 2) sr rms (length rms)
      (ins, start, ps)"
    using l by simp
  show ?thesis using that [OF hop sr rms inv p] .
qed


lemma detect_silence_returns:
  "200 \<le> sr \<Longrightarrow> \<exists>periods. detect_silence audio sr threshold_db md = Inr periods"
proof -
  assume "200 \<le> sr"
  then have "0 < sr div 100 div 2" by (simp add: div_greater_zero_iff le_div_geq)
  then show ?thesis
    by (auto simp: detect_silence_def window_size_eq' Let_def rms_values_def py_range_pos
        split: prod.splits)
qed

lemma detect_silence_raises:
  "sr < 200 \<Longrightarrow> detect_silence audio sr threshold_db md = Inl ValueError"
proof -
  assume "sr < 200"
  then have "sr div 100 div 2 = 0" by (simp add: div_eq_0_iff)
  then show ?thesis
    by (simp add: detect_silence_def window_size_eq' rms_values_zero_hop Let_def)
qed

text \<open>
  Claim C2.  Every period that \<open>detect_silence\<close> returns is at least
  \<open>min_silence_duration\<close> long, and it is exactly one run of silent windows: it starts
  at a silent window that follows a window that is not silent (or at the first window),
  all its windows are silent, and it ends at the first window at or above the threshold
  or, for a run that reaches the last window, at the end of the audio.  So a run that is
  shorter than the minimum is neither reported nor part of a reported period, and the
  run at the end of the stream is under the same minimum.
\<close>

theorem silence_periods_meet_minimum:
  assumes "detect_silence audio sr threshold_db md = Inr periods"
    and "p \<in> set periods"
  shows "md \<le> snd p - fst p
    \<and> (\<exists>rms i j. rms_values audio (sr div 100) (sr div 100 div 2) = Inr rms
          \<and> silent_run (10 powr (threshold_db / 20)) rms i j
          \<and> fst p = window_time (sr div 100 div 2) sr i
          \<and> (j < length rms \<and> fge (rms ! j) (10 powr (threshold_db / 20))
               \<and> snd p = window_time (sr div 100 div 2) sr j
             \<or> j = length rms \<and> snd p = real (length audio) / real sr))"
proof -
  let ?thr = "10 powr (threshold_db / 20)"
  let ?hop = "sr div 100 div 2"
  let ?dur = "real (length audio) / real sr"
  from assms(1) obtain rms ins start ps where
    rms: "rms_values audio (sr div 100) ?hop = Inr rms"
    and inv: "loop_inv ?thr md ?hop sr rms (length rms) (ins, start, ps)"
    and per: "periods = (if ins \<and> md \<le> ?dur - start then ps @ [(start, ?dur)] else ps)"
    by (rule detect_silence_inv)
  show ?thesis
  proof (cases "p \<in> set ps")
    case True
    with inv have "md \<le> snd p - fst p
        \<and> (\<exists>i j. silent_run ?thr rms i j \<and> j < length rms \<and> fge (rms ! j) ?thr
               \<and> fst p = window_time ?hop sr i \<and> snd p = window_time ?hop sr j)"
      by (simp add: loop_inv_def)
    with rms show ?thesis by blast
  next
    case False
    with assms(2) per have last: "ins" "md \<le> ?dur - start" "p = (start, ?dur)"
      by (auto split: if_splits)
    from inv last(1) obtain i where "silent_run ?thr rms i (length rms)"
      "start = window_time ?hop sr i"
      by (auto simp: loop_inv_def)
    with rms last show ?thesis by auto
  qed
qed

text \<open>
  Claim C3.  The list that \<open>detect_silence\<close> returns is in chronological order without
  overlap (every period ends before the next one starts), every period has
  \<open>start < end\<close>, and every period lies within \<open>[0, sample_count / sample_rate]\<close>.
\<close>

theorem silence_periods_ordered:
  assumes "detect_silence audio sr threshold_db md = Inr periods"
  shows "sorted_wrt (\<lambda>p q. snd p \<le> fst q) periods
    \<and> (\<forall>p\<in>set periods. fst p < snd p \<and> 0 \<le> fst p \<and> snd p \<le> real (length audio) / real sr)"
proof -
  let ?thr = "10 powr (threshold_db / 20)"
  let ?hop = "sr div 100 div 2"
  let ?dur = "real (length audio) / real sr"
  from assms(1) obtain rms ins start ps where
    hop: "0 < ?hop" and sr: "0 < sr"
    and rms: "rms_values audio (sr div 100) ?hop = Inr rms"
    and inv: "loop_inv ?thr md ?hop sr rms (length rms) (ins, start, ps)"
    and per: "periods = (if ins \<and> md \<le> ?dur - start then ps @ [(start, ?dur)] else ps)"
    by (rule detect_silence_inv)
  have bound: "window_time ?hop sr k < ?dur" if "k < length rms" for k
  proof -
    from rms_values_pos(3) [OF hop rms] that have "k * ?hop + sr div 100 < length audio"
      by simp
    then have "k * ?hop < length audio" by simp
    then have "real (k * ?hop) < real (length audio)" by (simp only: of_nat_less_iff)
    then show ?thesis using sr by (simp add: window_time_def divide_strict_right_mono)
  qed
  have closed: "fst p < snd p \<and> 0 \<le> fst p \<and> snd p \<le> ?dur" if "p \<in> set ps" for p
  proof -
    from inv that obtain i j where ij: "silent_run ?thr rms i j" "j < length rms"
      "fst p = window_time ?hop sr i" "snd p = window_time ?hop sr j"
      by (auto simp: loop_inv_def)
    from ij(1) have "i < j" by (simp add: silent_run_def)
    then have "fst p < snd p" using window_time_mono [OF hop sr] ij(3,4) by simp
    moreover have "0 \<le> fst p" using ij(3) window_time_nonneg by simp
    moreover have "snd p \<le> ?dur" using bound [OF ij(2)] ij(4) by simp
    ultimately show ?thesis by simp
  qed
  from inv have srt: "sorted_wrt (\<lambda>p q. snd p < fst q) ps"
    by (simp add: loop_inv_def)
  have srt': "sorted_wrt (\<lambda>p q. snd p \<le> fst q) ps"
    by (rule sorted_wrt_mono_rel [OF _ srt]) simp
  show ?thesis
  proof (cases "ins \<and> md \<le> ?dur - start")
    case False
    with per have "periods = ps" by simp
    with closed srt' show ?thesis by simp
  next
    case True
    with per have p: "periods = ps @ [(start, ?dur)]" by simp
    from inv True obtain i where i: "silent_run ?thr rms i (length rms)"
      "start = window_time ?hop sr i" "\<forall>p\<in>set ps. snd p < start"
      by (auto simp: loop_inv_def)
    from i(1) have "i < length rms" by (simp add: silent_run_def)
    from bound [OF this] i(2) have "start < ?dur" by simp
    moreover have "0 \<le> start" using i(2) window_time_nonneg by simp
    moreover have "\<forall>p\<in>set ps. snd p \<le> start" using i(3) by auto
    ultimately show ?thesis
      using closed srt' by (auto simp: p sorted_wrt_append)
  qed
qed

subsection \<open>Two runs of the detector at 200 Hz\<close>

lemma detect_silence_eval:
  assumes "rms_values audio (sr div 100) (sr div 100 div 2) = Inr rms"
    and "silence_loop (10 powr (threshold_db / 20)) md (sr div 100 div 2) sr 0 rms (False, 0, [])
       = (ins, start, ps)"
  shows "detect_silence audio sr threshold_db md
    = Inr (if ins \<and> md \<le> real (length audio) / real sr - start
           then ps @ [(start, real (length audio) / real sr)] else ps)"
  using assms by (simp add: detect_silence_def window_size_eq' Let_def)

lemma threshold_default: "10 powr (- 40 / 20) = (1 / 100 :: real)"
proof -
  have "(10::real) powr (- 40 / 20) = 10 powr (- 2)" by simp
  also have "\<dots> = 1 / (10 powr 2)" by (simp only: powr_minus_divide)
  also have "\<dots> = 1 / 100" by simp
  finally show ?thesis .
qed

lemma window_levels:
  "flt (Fin 0) (1 / 100)" "\<not> fge (Fin 0) (1 / 100)"
  "\<not> flt (Fin 1) (1 / 100)" "fge (Fin 1) (1 / 100)"
  "\<not> flt (Fin (sqrt (1 / 2))) (1 / 100)" "fge (Fin (sqrt (1 / 2))) (1 / 100)"
proof -
  have "(1 / 100)\<^sup>2 \<le> (1 / 2 :: real)" by (simp add: power2_eq_square)
  then have s: "1 / 100 \<le> sqrt (1 / 2)" by (rule real_le_rsqrt)
  from s show "fge (Fin (sqrt (1 / 2))) (1 / 100)" by simp
  from s show "\<not> flt (Fin (sqrt (1 / 2))) (1 / 100)" by simp
qed simp_all

lemma upt10: "[0..<10] = [0, 1, 2, 3, 4, 5, 6, 7, 8, 9 :: nat]"
  by code_simp

lemma upt6: "[0..<6] = [0, 1, 2, 3, 4, 5 :: nat]"
  by code_simp

lemma rms_ex1:
  "rms_values [0, 0, 0, 0, 0, 1, 1, 0, 0, 1, 1, 1] (200 div 100) (200 div 100 div 2)
    = Inr [Fin 0, Fin 0, Fin 0, Fin 0, Fin (sqrt (1 / 2)), Fin 1, Fin (sqrt (1 / 2)),
           Fin 0, Fin (sqrt (1 / 2)), Fin 1]"
  by (simp add: rms_values_def py_range_def upt10 np_mean_def square_def)

lemma loop_ex1:
  "silence_loop (1 / 100) (1 / 100) (200 div 100 div 2) 200 0
     [Fin 0, Fin 0, Fin 0, Fin 0, Fin (sqrt (1 / 2)), Fin 1, Fin (sqrt (1 / 2)),
           Fin 0, Fin (sqrt (1 / 2)), Fin 1] (False, 0, [])
   = (False, 7 / 200, [(0, 1 / 50)])"
  by (simp add: silence_step_def window_levels del: flt.simps fge.simps)

lemma detect_silence_ex1:
  "detect_silence [0, 0, 0, 0, 0, 1, 1, 0, 0, 1, 1, 1] 200 (- 40) (1 / 100) = Inr [(0, 1 / 50)]"
proof -
  have l: "silence_loop (10 powr (- 40 / 20)) (1 / 100) (200 div 100 div 2) 200 0
     [Fin 0, Fin 0, Fin 0, Fin 0, Fin (sqrt (1 / 2)), Fin 1, Fin (sqrt (1 / 2)),
           Fin 0, Fin (sqrt (1 / 2)), Fin 1] (False, 0, [])
   = (False, 7 / 200, [(0, 1 / 50)])"
    unfolding threshold_default by (rule loop_ex1)
  show ?thesis
    unfolding detect_silence_eval [OF rms_ex1 l] by simp
qed

lemma rms_ex2:
  "rms_values [0, 0, 0, 1, 1, 0, 0, 0] (200 div 100) (200 div 100 div 2)
    = Inr [Fin 0, Fin 0, Fin (sqrt (1 / 2)), Fin 1, Fin (sqrt (1 / 2)), Fin 0]"
  by (simp add: rms_values_def py_range_def upt6 np_mean_def square_def)

lemma loop_ex2:
  "silence_loop (1 / 100) (1 / 200) (200 div 100 div 2) 200 0
     [Fin 0, Fin 0, Fin (sqrt (1 / 2)), Fin 1, Fin (sqrt (1 / 2)), Fin 0] (False, 0, [])
   = (True, 1 / 40, [(0, 1 / 100)])"
  by (simp add: silence_step_def window_levels del: flt.simps fge.simps)

lemma detect_silence_ex2:
  "detect_silence [0, 0, 0, 1, 1, 0, 0, 0] 200 (- 40) (1 / 200)
     = Inr [(0, 1 / 100), (1 / 40, 1 / 25)]"
proof -
  have l: "silence_loop (10 powr (- 40 / 20)) (1 / 200) (200 div 100 div 2) 200 0
     [Fin 0, Fin 0, Fin (sqrt (1 / 2)), Fin 1, Fin (sqrt (1 / 2)), Fin 0] (False, 0, [])
   = (True, 1 / 40, [(0, 1 / 100)])"
    unfolding threshold_default by (rule loop_ex2)
  show ?thesis
    unfolding detect_silence_eval [OF rms_ex2 l] by simp
qed

theorem silence_periods_meet_minimum_witness:
  "detect_silence [0, 0, 0, 0, 0, 1, 1, 0, 0, 1, 1, 1] 200 (- 40) (1 / 100) = Inr [(0, 1 / 50)]
   \<and> (0, 1 / 50) \<in> set [(0, 1 / 50 :: real)]
   \<and> (1 / 100 :: real) \<le> snd (0 :: real, 1 / 50 :: real) - fst (0 :: real, 1 / 50 :: real)"
  using silence_periods_meet_minimum [OF detect_silence_ex1, of "(0, 1 / 50)"]
    detect_silence_ex1 by simp

theorem silence_periods_ordered_witness:
  "detect_silence [0, 0, 0, 1, 1, 0, 0, 0] 200 (- 40) (1 / 200)
     = Inr [(0, 1 / 100), (1 / 40, 1 / 25)]
   \<and> sorted_wrt (\<lambda>p q. snd p \<le> fst q) [(0 :: real, 1 / 100 :: real), (1 / 40, 1 / 25)]
   \<and> (0 :: real) < 1 / 100 \<and> (1 / 40 :: real) < 1 / 25
   \<and> (1 / 25 :: real) \<le> real (length [0, 0, 0, 1, 1, 0, 0, 0 :: real]) / real 200"
  using silence_periods_ordered [OF detect_silence_ex2] detect_silence_ex2 by simp

subsection \<open>Silent buffers\<close>

lemma silent_loop_stays:
  "0 < thr \<Longrightarrow> silence_loop thr md hop sr i (replicate m (Fin 0)) (True, start, ps) = (True, start, ps)"
  by (induction m arbitrary: i) (simp_all add: silence_step_def)

lemma zero_window_rms: "0 < m \<Longrightarrow> np_sqrt (np_mean (square (replicate m 0))) = Fin 0"
proof -
  assume "0 < m"
  then have "replicate m (0::real) \<noteq> []" by simp
  from np_rms_fin [OF this] show ?thesis
    by (simp add: square_def sum_list_replicate)
qed

lemma rms_values_zeros:
  assumes hop: "0 < hop" and ws: "0 < ws"
    and rms: "rms_values (replicate n 0) ws hop = Inr rms"
  shows "rms = replicate (length rms) (Fin 0)"
proof (rule nth_equalityI)
  show "length rms = length (replicate (length rms) (Fin 0))" by simp
next
  fix k assume k: "k < length rms"
  from rms_values_pos(2,3) [OF hop rms] k
  have v: "rms ! k = np_sqrt (np_mean (square (take ws (drop (k * hop) (replicate n 0)))))"
    and b: "k * hop + ws < n" by simp_all
  from b have "take ws (drop (k * hop) (replicate n (0::real))) = replicate ws 0"
    by (simp add: min_def)
  with v ws have "rms ! k = Fin 0" by (simp add: zero_window_rms)
  with k show "rms ! k = replicate (length rms) (Fin 0) ! k" by simp
qed

text \<open>
  Claim C4.  For an all-zero buffer of 5 seconds (\<open>5 * sample_rate\<close> samples) at a sample
  rate of at least 200 Hz, where the hop of half a window is at least one sample,
  \<open>detect_silence\<close> with the default threshold of -40 dB and the default minimum of 0.1 s
  returns exactly one period: it starts at 0 and ends at 5, which is at least 4.95.
\<close>

theorem five_seconds_of_zeros:
  assumes "200 \<le> sr"
  shows "detect_silence (replicate (5 * sr) 0) sr (- 40) 0.1 = Inr [(0, 5)]"
proof -
  let ?ws = "sr div 100" and ?hop = "sr div 100 div 2"
  from assms have hop: "0 < ?hop" by (simp add: div_greater_zero_iff le_div_geq)
  then have ws: "0 < ?ws" by (cases "?ws = 0") simp_all
  from assms have sr: "0 < sr" by simp
  from hop obtain rms where rms: "rms_values (replicate (5 * sr) 0) ?ws ?hop = Inr rms"
    by (auto simp: rms_values_def py_range_pos)
  have len: "length rms = nat ((int (5 * sr) - int ?ws + int ?hop - 1) div int ?hop)"
    using rms_values_pos(1) [OF hop rms] by simp
  define x where "x = int (5 * sr) - int ?ws + int ?hop - 1"
  have "?ws \<le> sr" by simp
  then have "int ?hop \<le> x" unfolding x_def using sr by linarith
  moreover have "0 < int ?hop" using hop by simp
  ultimately have "0 < x div int ?hop" by (simp only: pos_imp_zdiv_pos_iff)
  with len have "0 < length rms" unfolding x_def by linarith
  then obtain m where m: "length rms = Suc m" by (cases "length rms") simp_all
  have z: "rms = Fin 0 # replicate m (Fin 0)"
    using rms_values_zeros [OF hop ws rms] m by simp
  have thr: "0 < (1 / 100 :: real)" by simp
  have "silence_loop (1 / 100) 0.1 ?hop sr 0 rms (False, 0, []) = (True, 0, [])"
    unfolding z by (simp add: silence_step_def silent_loop_stays)
  then have l: "silence_loop (10 powr (- 40 / 20)) 0.1 ?hop sr 0 rms (False, 0, []) = (True, 0, [])"
    by (simp only: threshold_default)
  have d: "real (length (replicate (5 * sr) (0::real))) / real sr = 5" using sr by simp
  show ?thesis
    unfolding detect_silence_eval [OF rms l] d by simp
qed

theorem five_seconds_of_zeros_witness:
  "(200::nat) \<le> 200 \<and> detect_silence (replicate (5 * 200) 0) 200 (- 40) 0.1 = Inr [(0, 5)]"
  using five_seconds_of_zeros [of 200] by simp

lemma silence_percentage_empty: "d \<noteq> 0 \<Longrightarrow> silence_percentage [] d = Inr 0"
  by (simp add: silence_percentage_def)

subsection \<open>Audio that is no longer than one window\<close>

lemma detect_silence_short:
  assumes "200 \<le> sr" and "length audio \<le> sr div 100"
  shows "detect_silence audio sr threshold_db md = Inr []"
proof -
  let ?ws = "sr div 100" and ?hop = "sr div 100 div 2"
  from assms(1) have hop: "0 < ?hop" by (simp add: div_greater_zero_iff le_div_geq)
  from assms(2) have "int (length audio) - int ?ws + int ?hop - 1 \<le> int ?hop - 1" by linarith
  then have "(int (length audio) - int ?ws + int ?hop - 1) div int ?hop
      \<le> (int ?hop - 1) div int ?hop"
    using hop by (intro zdiv_mono1) simp_all
  also have "(int ?hop - 1) div int ?hop = 0"
    using hop by (intro div_pos_pos_trivial) simp_all
  finally have "(int (length audio) - int ?ws + int ?hop - 1) div int ?hop \<le> 0" .
  then have rms: "rms_values audio ?ws ?hop = Inr []"
    using hop by (simp add: rms_values_def py_range_pos)
  have l: "silence_loop (10 powr (threshold_db / 20)) md ?hop sr 0 [] (False, 0, []) = (False, 0, [])"
    by simp
  show ?thesis
    unfolding detect_silence_eval [OF rms l] by simp
qed

text \<open>
  Claim C9, as amended.  For a sample rate of at least 200 Hz and an audio buffer whose
  sample count is at most the window size \<open>int(0.01 * sample_rate)\<close>, \<open>detect_silence\<close>
  returns the empty list, whatever the samples are; for such a buffer that is not empty
  the silence percentage is 0.
\<close>

theorem short_audio_no_silence:
  assumes "200 \<le> sr" and "length audio \<le> nat \<lfloor>0.01 * real sr\<rfloor>"
  shows "detect_silence audio sr threshold_db md = Inr []
    \<and> (audio \<noteq> [] \<longrightarrow>
         (\<exists>duration. calculate_duration audio sr = Inr duration
            \<and> silence_percentage [] duration = Inr 0))"
proof
  from assms(2) have le: "length audio \<le> sr div 100" unfolding window_size_eq .
  show "detect_silence audio sr threshold_db md = Inr []"
    using detect_silence_short [OF assms(1) le] .
  show "audio \<noteq> [] \<longrightarrow> (\<exists>duration. calculate_duration audio sr = Inr duration
            \<and> silence_percentage [] duration = Inr 0)"
    using assms(1) by (simp add: calculate_duration_def silence_percentage_empty)
qed

theorem short_audio_no_silence_witness:
  "(200::nat) \<le> 200 \<and> length [0, 0 :: real] \<le> nat \<lfloor>0.01 * real 200\<rfloor>
   \<and> detect_silence [0, 0] 200 (- 40) 0.1 = Inr []
   \<and> calculate_duration [0, 0] 200 = Inr (1 / 100)
   \<and> silence_percentage [] (1 / 100) = Inr 0"
proof -
  have h: "length [0, 0 :: real] \<le> nat \<lfloor>0.01 * real 200\<rfloor>" unfolding window_size_eq by simp
  have c: "calculate_duration [0, 0] 200 = Inr (1 / 100)" by (simp add: calculate_duration_def)
  from short_audio_no_silence [OF _ h, of "- 40" "0.1"]
  obtain d where s: "detect_silence [0, 0] 200 (- 40) 0.1 = Inr []"
    and d: "calculate_duration [0, 0] 200 = Inr d" "silence_percentage [] d = Inr 0"
    by auto
  from c d(1) have "d = 1 / 100" by simp
  with h c s d(2) show ?thesis by simp
qed

text \<open>
  The claim as stated fails below 200 Hz, where the hop size is 0 and \<open>range\<close> raises
  ValueError (one sample at 150 Hz), and its silence percentage fails on the empty
  buffer, where the duration is 0 and the division raises.
\<close>

theorem short_audio_counterexample:
  "length [0 :: real] \<le> nat \<lfloor>0.01 * real 150\<rfloor>
   \<and> detect_silence [0] 150 (- 40) 0.1 = Inl ValueError
   \<and> length ([] :: real list) \<le> nat \<lfloor>0.01 * real 44100\<rfloor>
   \<and> detect_silence [] 44100 (- 40) 0.1 = Inr []
   \<and> calculate_duration [] 44100 = Inr 0
   \<and> silence_percentage [] 0 = Inl ZeroDivisionError"
proof -
  have "length [0 :: real] \<le> nat \<lfloor>0.01 * real 150\<rfloor>" unfolding window_size_eq by simp
  moreover have "detect_silence [0] 150 (- 40) 0.1 = Inl ValueError"
    by (rule detect_silence_raises) simp
  moreover have "detect_silence [] 44100 (- 40) 0.1 = Inr []"
    by (rule detect_silence_short) simp_all
  moreover have "calculate_duration [] 44100 = Inr 0" by (simp add: calculate_duration_def)
  moreover have "silence_percentage [] 0 = Inl ZeroDivisionError"
    by (simp add: silence_percentage_def)
  ultimately show ?thesis by simp
qed


section \<open>Properties of the report\<close>

lemma analyze_audio_report:
  assumes sr: "200 \<le> sr" and ne: "audio \<noteq> []"
  obtains periods percentage is_clipped peak_db where
    "detect_silence audio sr (- 40) 0.1 = Inr periods"
    "silence_percentage periods (real (length audio) / real sr) = Inr percentage"
    "detect_clipping audio sr = Inr (is_clipped, peak_db, - 0.1)"
    "analyze_audio beat_track feedback audio sr =
       Inr ([DurationLine (real (length audio) / real sr),
             SilenceTotalLine (sum_list (map (\<lambda>(start, end). end - start) periods)) percentage,
             SilenceCountLine (length periods)]
            @ (if periods \<noteq> [] then
                 SilencePeriodsLine (take 5 periods)
                 # (if length periods > 5 then [SilenceMoreLine (length periods - 5)] else [])
               else [])
            @ [RmsLinearLine (fst (calculate_rms audio)), RmsDbLine (snd (calculate_rms audio))]
            @ snd (estimate_tempo beat_track audio sr)
            @ [if fst (fst (estimate_tempo beat_track audio sr)) > 0
               then TempoLine (fst (fst (estimate_tempo beat_track audio sr)))
                      (snd (fst (estimate_tempo beat_track audio sr)))
               else TempoUnknownLine]
            @ [PeakLine peak_db, ThresholdLine (- 0.1), ClippedLine is_clipped,
               SampleRateLine sr, SampleCountLine (length audio),
               DynamicRangeLine peak_db (snd (calculate_rms audio))]
            @ map FeedbackLine
                (feedback (snd (calculate_rms audio)) peak_db is_clipped periods
                   (fst (fst (estimate_tempo beat_track audio sr)))
                   (real (length audio) / real sr) percentage))"
proof -
  let ?d = "real (length audio) / real sr"
  from sr have d: "calculate_duration audio sr = Inr ?d"
    by (simp add: calculate_duration_def)
  from detect_silence_returns [OF sr] obtain periods where
    p: "detect_silence audio sr (- 40) 0.1 = Inr periods" by blast
  from sr ne have "?d \<noteq> 0" by simp
  then obtain percentage where pc: "silence_percentage periods ?d = Inr percentage"
    by (simp add: silence_percentage_def Let_def)
  from detect_clipping_nonempty [OF ne] obtain is_clipped peak_db where
    c: "detect_clipping audio sr = Inr (is_clipped, peak_db, - 0.1)" by blast
  have "analyze_audio beat_track feedback audio sr = Inr (
       [DurationLine ?d,
             SilenceTotalLine (sum_list (map (\<lambda>(start, end). end - start) periods)) percentage,
             SilenceCountLine (length periods)]
            @ (if periods \<noteq> [] then
                 SilencePeriodsLine (take 5 periods)
                 # (if length periods > 5 then [SilenceMoreLine (length periods - 5)] else [])
               else [])
            @ [RmsLinearLine (fst (calculate_rms audio)), RmsDbLine (snd (calculate_rms audio))]
            @ snd (estimate_tempo beat_track audio sr)
            @ [if fst (fst (estimate_tempo beat_track audio sr)) > 0
               then TempoLine (fst (fst (estimate_tempo beat_track audio sr)))
                      (snd (fst (estimate_tempo beat_track audio sr)))
               else TempoUnknownLine]
            @ [PeakLine peak_db, ThresholdLine (- 0.1), ClippedLine is_clipped,
               SampleRateLine sr, SampleCountLine (length audio),
               DynamicRangeLine peak_db (snd (calculate_rms audio))]
            @ map FeedbackLine
                (feedback (snd (calculate_rms audio)) peak_db is_clipped periods
                   (fst (fst (estimate_tempo beat_track audio sr)))
                   ?d percentage))"
    by (simp add: analyze_audio_def d p pc c split_beta)
  with p pc c show ?thesis by (rule that)
qed

lemma analyze_audio_fails:
  assumes "\<not> (200 \<le> sr \<and> audio \<noteq> [])"
  shows "\<exists>err. analyze_audio beat_track feedback audio sr = Inl err"
proof (cases "200 \<le> sr")
  case False
  then have "detect_silence audio sr (- 40) 0.1 = Inl ValueError"
    by (intro detect_silence_raises) simp
  then show ?thesis
    by (simp add: analyze_audio_def split: sum.splits)
next
  case True
  with assms have e: "audio = []" by simp
  from True have d: "calculate_duration [] sr = Inr 0" by (simp add: calculate_duration_def)
  have p: "detect_silence [] sr (- 40) 0.1 = Inr []"
    using True by (intro detect_silence_short) simp_all
  have pc: "silence_percentage [] 0 = Inl ZeroDivisionError"
    by (simp add: silence_percentage_def)
  show ?thesis by (simp add: e analyze_audio_def d p pc)
qed

lemma analyze_audio_needs:
  assumes "analyze_audio beat_track feedback audio sr = Inr report"
  shows "200 \<le> sr \<and> audio \<noteq> []"
proof (rule ccontr)
  assume "\<not> (200 \<le> sr \<and> audio \<noteq> [])"
  from analyze_audio_fails [OF this] obtain err where
    "analyze_audio beat_track feedback audio sr = Inl err" by blast
  with assms show False by simp
qed

lemma estimate_tempo_raises:
  "beat_track audio sr = Inl e \<Longrightarrow> estimate_tempo beat_track audio sr = ((0, 0), [WarningLine e])"
  by (simp add: estimate_tempo_def)

lemma estimate_tempo_warning:
  "l \<in> set (snd (estimate_tempo beat_track audio sr)) \<Longrightarrow> \<exists>e. l = WarningLine e"
  by (auto simp: estimate_tempo_def split: sum.splits)

text \<open>
  Claim C7.  When the beat tracker raises, \<open>estimate_tempo\<close> returns tempo 0.0 and
  confidence 0.0 after printing a warning.  Whether \<open>analyze_audio\<close> completes does not
  depend on the beat tracker (it completes exactly for a non-empty waveform at a sample
  rate of at least 200 Hz).  A completed report shows the "could not be estimated"
  line exactly when the tempo is not positive, shows the warning of a tracker that
  raised, and shows the duration, the silence summary, the RMS and the clipping result.
\<close>

theorem tempo_failure_not_fatal:
  "(beat_track audio sr = Inl e \<longrightarrow>
      estimate_tempo beat_track audio sr = ((0, 0), [WarningLine e]))
   \<and> ((\<exists>report. analyze_audio beat_track feedback audio sr = Inr report)
        \<longleftrightarrow> 200 \<le> sr \<and> audio \<noteq> [])
   \<and> (analyze_audio beat_track feedback audio sr = Inr report \<longrightarrow>
        (TempoUnknownLine \<in> set report
           \<longleftrightarrow> \<not> 0 < fst (fst (estimate_tempo beat_track audio sr)))
        \<and> (beat_track audio sr = Inl e \<longrightarrow> WarningLine e \<in> set report)
        \<and> DurationLine (real (length audio) / real sr) \<in> set report
        \<and> (\<exists>periods percentage.
              detect_silence audio sr (- 40) 0.1 = Inr periods
              \<and> silence_percentage periods (real (length audio) / real sr) = Inr percentage
              \<and> SilenceCountLine (length periods) \<in> set report
              \<and> SilenceTotalLine (sum_list (map (\<lambda>(start, end). end - start) periods))
                    percentage \<in> set report)
        \<and> RmsLinearLine (fst (calculate_rms audio)) \<in> set report
        \<and> RmsDbLine (snd (calculate_rms audio)) \<in> set report
        \<and> (\<exists>is_clipped peak_db.
              detect_clipping audio sr = Inr (is_clipped, peak_db, - 0.1)
              \<and> PeakLine peak_db \<in> set report \<and> ThresholdLine (- 0.1) \<in> set report
              \<and> ClippedLine is_clipped \<in> set report))"
proof (intro conjI impI)
  assume "beat_track audio sr = Inl e"
  then show "estimate_tempo beat_track audio sr = ((0, 0), [WarningLine e])"
    by (rule estimate_tempo_raises)
next
  show "(\<exists>report. analyze_audio beat_track feedback audio sr = Inr report)
        \<longleftrightarrow> 200 \<le> sr \<and> audio \<noteq> []"
  proof
    assume "\<exists>report. analyze_audio beat_track feedback audio sr = Inr report"
    then show "200 \<le> sr \<and> audio \<noteq> []"
      using analyze_audio_needs by blast
  next
    assume "200 \<le> sr \<and> audio \<noteq> []"
    then show "\<exists>report. analyze_audio beat_track feedback audio sr = Inr report"
      using analyze_audio_report [of sr audio beat_track feedback] by blast
  qed
next
  assume r: "analyze_audio beat_track feedback audio sr = Inr report"
  then have ok: "200 \<le> sr" "audio \<noteq> []"
    using analyze_audio_needs by blast+
  from analyze_audio_report [OF ok, of beat_track feedback]
  obtain periods percentage is_clipped peak_db where
    p: "detect_silence audio sr (- 40) 0.1 = Inr periods"
    and pc: "silence_percentage periods (real (length audio) / real sr) = Inr percentage"
    and c: "detect_clipping audio sr = Inr (is_clipped, peak_db, - 0.1)"
    and rep: "analyze_audio beat_track feedback audio sr =
       Inr ([DurationLine (real (length audio) / real sr),
             SilenceTotalLine (sum_list (map (\<lambda>(start, end). end - start) periods)) percentage,
             SilenceCountLine (length periods)]
            @ (if periods \<noteq> [] then
                 SilencePeriodsLine (take 5 periods)
                 # (if length periods > 5 then [SilenceMoreLine (length periods - 5)] else [])
               else [])
            @ [RmsLinearLine (fst (calculate_rms audio)), RmsDbLine (snd (calculate_rms audio))]
            @ snd (estimate_tempo beat_track audio sr)
            @ [if fst (fst (estimate_tempo beat_track audio sr)) > 0
               then TempoLine (fst (fst (estimate_tempo beat_track audio sr)))
                      (snd (fst (estimate_tempo beat_track audio sr)))
               else TempoUnknownLine]
            @ [PeakLine peak_db, ThresholdLine (- 0.1), ClippedLine is_clipped,
               SampleRateLine sr, SampleCountLine (length audio),
               DynamicRangeLine peak_db (snd (calculate_rms audio))]
            @ map FeedbackLine
                (feedback (snd (calculate_rms audio)) peak_db is_clipped periods
                   (fst (fst (estimate_tempo beat_track audio sr)))
                   (real (length audio) / real sr) percentage))"
    by blast
  from r rep have report: "report =
            [DurationLine (real (length audio) / real sr),
             SilenceTotalLine (sum_list (map (\<lambda>(start, end). end - start) periods)) percentage,
             SilenceCountLine (length periods)]
            @ (if periods \<noteq> [] then
                 SilencePeriodsLine (take 5 periods)
                 # (if length periods > 5 then [SilenceMoreLine (length periods - 5)] else [])
               else [])
            @ [RmsLinearLine (fst (calculate_rms audio)), RmsDbLine (snd (calculate_rms audio))]
            @ snd (estimate_tempo beat_track audio sr)
            @ [if fst (fst (estimate_tempo beat_track audio sr)) > 0
               then TempoLine (fst (fst (estimate_tempo beat_track audio sr)))
                      (snd (fst (estimate_tempo beat_track audio sr)))
               else TempoUnknownLine]
            @ [PeakLine peak_db, ThresholdLine (- 0.1), ClippedLine is_clipped,
               SampleRateLine sr, SampleCountLine (length audio),
               DynamicRangeLine peak_db (snd (calculate_rms audio))]
            @ map FeedbackLine
                (feedback (snd (calculate_rms audio)) peak_db is_clipped periods
                   (fst (fst (estimate_tempo beat_track audio sr)))
                   (real (length audio) / real sr) percentage)"
    by simp
  have nw: "TempoUnknownLine \<notin> set (snd (estimate_tempo beat_track audio sr))"
    using estimate_tempo_warning [of TempoUnknownLine beat_track audio sr] by auto
  show "TempoUnknownLine \<in> set report
           \<longleftrightarrow> \<not> 0 < fst (fst (estimate_tempo beat_track audio sr))"
    unfolding report using nw by auto
  show "DurationLine (real (length audio) / real sr) \<in> set report"
    unfolding report by simp
  show "RmsLinearLine (fst (calculate_rms audio)) \<in> set report"
    unfolding report by simp
  show "RmsDbLine (snd (calculate_rms audio)) \<in> set report"
    unfolding report by simp
  show "\<exists>periods percentage.
              detect_silence audio sr (- 40) 0.1 = Inr periods
              \<and> silence_percentage periods (real (length audio) / real sr) = Inr percentage
              \<and> SilenceCountLine (length periods) \<in> set report
              \<and> SilenceTotalLine (sum_list (map (\<lambda>(start, end). end - start) periods))
                    percentage \<in> set report"
    using p pc unfolding report by (intro exI [of _ periods] exI [of _ percentage]) simp
  show "\<exists>is_clipped peak_db.
              detect_clipping audio sr = Inr (is_clipped, peak_db, - 0.1)
              \<and> PeakLine peak_db \<in> set report \<and> ThresholdLine (- 0.1) \<in> set report
              \<and> ClippedLine is_clipped \<in> set report"
    using c unfolding report by (intro exI [of _ is_clipped] exI [of _ peak_db]) simp
  show "WarningLine e \<in> set report" if "beat_track audio sr = Inl e"
    unfolding report using that by (simp add: estimate_tempo_def)
qed


lemma analyze_audio_ex:
  "analyze_audio (\<lambda>audio sr. Inl ''no beats'') (\<lambda>rms_db peak_db clipped periods tempo d pct. [])
     [0, 0] 200
   = Inr [DurationLine (1 / 100), SilenceTotalLine 0 0, SilenceCountLine 0,
          RmsLinearLine (Fin 0), RmsDbLine NegInf, WarningLine ''no beats'', TempoUnknownLine,
          PeakLine NegInf, ThresholdLine (- 0.1), ClippedLine False,
          SampleRateLine 200, SampleCountLine 2, DynamicRangeLine NegInf NegInf]"
proof -
  have ds: "detect_silence [0, 0] 200 (- 40) 0.1 = Inr []"
    by (rule detect_silence_short) simp_all
  show ?thesis
    by (simp add: analyze_audio_def calculate_duration_def ds silence_percentage_def
        calculate_rms_def np_mean_def square_def estimate_tempo_def detect_clipping_def
        np_max_def Let_def)
qed

theorem tempo_failure_not_fatal_witness:
  "estimate_tempo (\<lambda>audio sr. Inl ''no beats'') [0, 0] 200 = ((0, 0), [WarningLine ''no beats''])
   \<and> analyze_audio (\<lambda>audio sr. Inl ''no beats'')
        (\<lambda>rms_db peak_db clipped periods tempo d pct. []) [0, 0] 200
      = Inr [DurationLine (1 / 100), SilenceTotalLine 0 0, SilenceCountLine 0,
          RmsLinearLine (Fin 0), RmsDbLine NegInf, WarningLine ''no beats'', TempoUnknownLine,
          PeakLine NegInf, ThresholdLine (- 0.1), ClippedLine False,
          SampleRateLine 200, SampleCountLine 2, DynamicRangeLine NegInf NegInf]
   \<and> \<not> 0 < fst (fst (estimate_tempo (\<lambda>audio sr. Inl ''no beats'') [0, 0] 200))"
  using tempo_failure_not_fatal [of "\<lambda>audio sr. Inl ''no beats''" "[0, 0]" 200 "''no beats''"
      "\<lambda>rms_db peak_db clipped periods tempo d pct. []"
      "[DurationLine (1 / 100), SilenceTotalLine 0 0, SilenceCountLine 0,
          RmsLinearLine (Fin 0), RmsDbLine NegInf, WarningLine ''no beats'', TempoUnknownLine,
          PeakLine NegInf, ThresholdLine (- 0.1), ClippedLine False,
          SampleRateLine 200, SampleCountLine 2, DynamicRangeLine NegInf NegInf]"]
    analyze_audio_ex
  by simp

end
